theory Spec2Isabelle
  imports Main
begin

section \<open>The combat store of war-dice (src/store/game.ts)\<close>

text \<open>
  The store holds one encounter: the phase, the troops of each side, the list of dice
  exchanges made so far and the final winner. Its operations are \<open>play\<close>,
  \<open>reset\<close>, \<open>setTroops\<close>, \<open>getLastRoll\<close>, \<open>nextDiceCount\<close>,
  \<open>nextRoundCount\<close> and \<open>rollDices\<close>. Every operation reads the store with
  \<open>get()\<close> and writes it with \<open>set(...)\<close>, which merges the given fields into
  the stored object; here each operation takes the stored data and returns the new data.

  Troop counts are JavaScript numbers, which the specification takes to be integers; they
  are modelled as unbounded integers.
\<close>

subsection \<open>Data\<close>

text \<open>
  The two enumerations are imported by the store from \<open>utils/types\<close>. An object of
  type \<open>Record<Sides, T>\<close> has exactly one entry per side: a total function on
  \<open>Sides\<close>.
\<close>

datatype Sides = Attack | Defense

datatype GameState = Waiting | Rolling | Finished

text \<open>
  Modelled from the spec: the declaration of the enumeration \<open>Sides\<close> is not part of the
  store's file, so the order in which \<open>Object.values(Sides)\<close> lists its members is taken
  from the spec's data model, which names the attacker first and the defender second.
\<close>

definition Sides_values :: "Sides list" where
  "Sides_values = [Attack, Defense]"

text \<open>The object literal \<open>{ [Sides.Attack]: a, [Sides.Defense]: d }\<close>.\<close>

definition sides_record :: "'a \<Rightarrow> 'a \<Rightarrow> Sides \<Rightarrow> 'a" where
  "sides_record a d = (\<lambda>side. case side of Attack \<Rightarrow> a | Defense \<Rightarrow> d)"

text \<open>
  \<open>RollDice\<close>: one exchange. The array \<open>rounds\<close> is created by
  \<open>Array.from({ length: roundCount })\<close>, whose entries are \<open>undefined\<close> until the
  comparison loop assigns them: an entry is \<open>None\<close> while it is undefined. The field
  \<open>winner\<close> of an exchange is called \<open>rollWinner\<close> here, the name \<open>winner\<close>
  being the one of the store's field.
\<close>

record RollDice =
  dices :: "Sides \<Rightarrow> int list"
  rounds :: "Sides option list"
  rollWinner :: Sides
  troopsLost :: "Sides \<Rightarrow> int"

text \<open>\<open>GameData\<close>: the data fields of the store (\<open>winner\<close> is \<open>null\<close> as \<open>None\<close>).\<close>

record GameData =
  state :: GameState
  initialTroops :: "Sides \<Rightarrow> int"
  troops :: "Sides \<Rightarrow> int"
  rolls :: "RollDice list"
  winner :: "Sides option"

text \<open>The second argument of \<open>setTroops\<close>: a number, or a function of the current count.\<close>

datatype troops_value = Number int | Updater "int \<Rightarrow> int"

subsection \<open>Constants and the initial state\<close>

definition MAX_DICE_ROUNDS :: int where
  "MAX_DICE_ROUNDS = 3"

definition initialState :: GameData where
  "initialState =
     \<lparr> state = Waiting,
       initialTroops = sides_record 0 0,
       troops = sides_record 4 4,
       rolls = [],
       winner = None \<rparr>"

subsection \<open>Operations that do not roll\<close>

definition reset :: "GameData \<Rightarrow> GameData" where
  "reset s = initialState"

definition setTroops :: "Sides \<Rightarrow> troops_value \<Rightarrow> GameData \<Rightarrow> GameData" where
  "setTroops side val s =
     s\<lparr> troops := (troops s)
          (side := max 0 (case val of Updater f \<Rightarrow> f (troops s side) | Number v \<Rightarrow> v)) \<rparr>"

text \<open>\<open>rolls[rolls.length - 1]\<close> is \<open>undefined\<close> on the empty array.\<close>

definition getLastRoll :: "GameData \<Rightarrow> RollDice option" where
  "getLastRoll s = (if rolls s = [] then None else Some (last (rolls s)))"

definition nextDiceCount :: "Sides \<Rightarrow> int \<Rightarrow> int" where
  "nextDiceCount side n =
     (if side = Attack then
        (if n \<ge> 4 then 3 else if n = 3 then 2 else if n = 2 then 1 else 0)
      else
        (if n \<ge> 3 then 3 else if n = 2 then 2 else if n = 1 then 1 else 0))"

definition nextRoundCount :: "GameData \<Rightarrow> int" where
  "nextRoundCount s =
     max 0 (min MAX_DICE_ROUNDS (min (troops s Defense) (troops s Attack - 1)))"

subsection \<open>Rolling\<close>

text \<open>
  The random source \<open>rollDice()\<close> of \<open>utils/math\<close> is a parameter: \<open>rng k\<close> is
  the value that the \<open>k\<close>-th call made during one exchange returns (counting from 0).
  Nothing is assumed about the values.

  \<open>push_rolls\<close> is the inner loop
  \<^verbatim>\<open>for (let i = 0; i < count; i++) dices[side].push(rollDice())\<close>;
  it returns the array and the number of calls made so far.
\<close>

function push_rolls :: "(nat \<Rightarrow> int) \<Rightarrow> int \<Rightarrow> nat \<Rightarrow> nat \<Rightarrow> int list \<Rightarrow> int list \<times> nat" where
  "push_rolls rng count i k ds =
     (if int i < count then push_rolls rng count (Suc i) (Suc k) (ds @ [rng k])
      else (ds, k))"
  by pat_completeness auto
termination
  by (relation "measure (\<lambda>(rng, count, i, k, ds). nat (count - int i))") auto

declare push_rolls.simps [simp del]

text \<open>\<open>xs.sort((a, b) => b - a)\<close>: a stable sort, highest first.\<close>

definition sort_desc :: "int list \<Rightarrow> int list" where
  "sort_desc xs = sort_key (\<lambda>x. - x) xs"

text \<open>The body of the loop over \<open>Object.values(Sides)\<close>, for one side.\<close>

definition roll_side ::
  "(nat \<Rightarrow> int) \<Rightarrow> (Sides \<Rightarrow> int) \<Rightarrow> Sides \<Rightarrow> (Sides \<Rightarrow> int list) \<times> nat \<Rightarrow> (Sides \<Rightarrow> int list) \<times> nat" where
  "roll_side rng trp side acc =
     (let ds0 = fst acc;
          count = nextDiceCount side (trp side);
          pushed = push_rolls rng count 0 (snd acc) (ds0 side)
      in (ds0(side := sort_desc (fst pushed)), snd pushed))"

definition roll_all :: "(nat \<Rightarrow> int) \<Rightarrow> (Sides \<Rightarrow> int) \<Rightarrow> Sides \<Rightarrow> int list" where
  "roll_all rng trp = fst (fold (roll_side rng trp) Sides_values (sides_record [] [], 0))"

text \<open>
  Reading an array at an index: \<open>undefined\<close> (\<open>None\<close>) beyond its end. The comparison
  \<open>a > b\<close> of JavaScript is false as soon as one operand is \<open>undefined\<close>. Assigning
  at an index beyond the end extends the array with undefined entries.
\<close>

definition js_index :: "'a list \<Rightarrow> nat \<Rightarrow> 'a option" where
  "js_index xs i = (if i < length xs then Some (xs ! i) else None)"

definition js_gt :: "int option \<Rightarrow> int option \<Rightarrow> bool" where
  "js_gt a b = (case (a, b) of (Some x, Some y) \<Rightarrow> x > y | _ \<Rightarrow> False)"

definition js_assign :: "'a option list \<Rightarrow> nat \<Rightarrow> 'a \<Rightarrow> 'a option list" where
  "js_assign xs i v =
     (if i < length xs then xs[i := Some v]
      else xs @ replicate (i - length xs) None @ [Some v])"

text \<open>
  The comparison loop \<^verbatim>\<open>for (let i = 0; i < roundCount; i++)\<close>: it fills
  \<open>rounds\<close> and counts the wins of each side.
\<close>

function compare_loop ::
  "(Sides \<Rightarrow> int list) \<Rightarrow> int \<Rightarrow> nat \<Rightarrow> Sides option list \<Rightarrow> (Sides \<Rightarrow> int)
     \<Rightarrow> Sides option list \<times> (Sides \<Rightarrow> int)" where
  "compare_loop ds roundCount i rs wins =
     (if int i < roundCount then
        (let attack = js_index (ds Attack) i;
             defense = js_index (ds Defense) i;
             r = (if js_gt attack defense then Attack else Defense)
         in compare_loop ds roundCount (Suc i) (js_assign rs i r) (wins(r := wins r + 1)))
      else (rs, wins))"
  by pat_completeness auto
termination
  by (relation "measure (\<lambda>(ds, roundCount, i, rs, wins). nat (roundCount - int i))") auto

declare compare_loop.simps [simp del]

definition rollDices :: "(nat \<Rightarrow> int) \<Rightarrow> GameData \<Rightarrow> GameData" where
  "rollDices rng s =
     (let trp = troops s;
          roundCount = nextRoundCount s;
          ds = roll_all rng trp;
          compared = compare_loop ds roundCount 0 (replicate (nat roundCount) None)
                       (sides_record 0 0);
          rs = fst compared;
          wins = snd compared;
          w = (if wins Attack > wins Defense then Attack else Defense);
          lost = sides_record (roundCount - wins Attack) (roundCount - wins Defense);
          updatedTroops = sides_record (trp Attack - lost Attack) (trp Defense - lost Defense);
          s1 = s\<lparr> rolls := rolls s @ [\<lparr> dices = ds, rounds = rs, rollWinner = w,
                                         troopsLost = lost \<rparr>],
                  troops := updatedTroops \<rparr>
      in if updatedTroops Defense = 0 then s1\<lparr> state := Finished, winner := Some Attack \<rparr>
         else if updatedTroops Attack \<le> 1 then s1\<lparr> state := Finished, winner := Some Defense \<rparr>
         else s1)"

definition play :: "(nat \<Rightarrow> int) \<Rightarrow> GameData \<Rightarrow> GameData" where
  "play rng s =
     (if state s = Finished then reset s
      else rollDices rng
             (if state s = Waiting
              then s\<lparr> state := Rolling, initialTroops := troops s, rolls := [], winner := None \<rparr>
              else s))"

subsection \<open>Sequences of operations\<close>

text \<open>
  A caller of the store performs any sequence of the three mutators; every \<open>play\<close>
  comes with the values its dice will show.
\<close>

datatype operation = SetTroops Sides troops_value | Play "nat \<Rightarrow> int" | Reset

fun apply_operation :: "operation \<Rightarrow> GameData \<Rightarrow> GameData" where
  "apply_operation (SetTroops side val) s = setTroops side val s"
| "apply_operation (Play rng) s = play rng s"
| "apply_operation Reset s = reset s"

definition run :: "operation list \<Rightarrow> GameData \<Rightarrow> GameData" where
  "run ops s = fold apply_operation ops s"

text \<open>Configuring the troops before a battle: a sequence of \<open>setTroops\<close> calls.\<close>

definition configure :: "(Sides \<times> troops_value) list \<Rightarrow> GameData \<Rightarrow> GameData" where
  "configure cfg s = fold (\<lambda>(side, val). setTroops side val) cfg s"

subsection \<open>Names for the parts of one exchange\<close>

text \<open>
  The values that \<open>rollDices\<close> computes on its way, named so that statements can
  speak about them: the winner of the pair at index \<open>i\<close>, the sorted dice, the result
  of the comparison loop, the wins of each side, the recorded exchange and the troops
  left. Lemma \<open>rollDices_eq\<close> below shows that \<open>rollDices\<close> is made of them.
\<close>

definition pair_winner :: "(Sides \<Rightarrow> int list) \<Rightarrow> nat \<Rightarrow> Sides" where
  "pair_winner ds i =
     (if js_gt (js_index (ds Attack) i) (js_index (ds Defense) i) then Attack else Defense)"

definition exchange_dices :: "(nat \<Rightarrow> int) \<Rightarrow> GameData \<Rightarrow> Sides \<Rightarrow> int list" where
  "exchange_dices rng s = roll_all rng (troops s)"

definition exchange_compared ::
  "(nat \<Rightarrow> int) \<Rightarrow> GameData \<Rightarrow> Sides option list \<times> (Sides \<Rightarrow> int)" where
  "exchange_compared rng s =
     compare_loop (exchange_dices rng s) (nextRoundCount s) 0
       (replicate (nat (nextRoundCount s)) None) (sides_record 0 0)"

definition exchange_wins :: "(nat \<Rightarrow> int) \<Rightarrow> GameData \<Rightarrow> Sides \<Rightarrow> int" where
  "exchange_wins rng s = snd (exchange_compared rng s)"

definition exchange_roll :: "(nat \<Rightarrow> int) \<Rightarrow> GameData \<Rightarrow> RollDice" where
  "exchange_roll rng s =
     \<lparr> dices = exchange_dices rng s,
       rounds = fst (exchange_compared rng s),
       rollWinner = (if exchange_wins rng s Attack > exchange_wins rng s Defense
                     then Attack else Defense),
       troopsLost = sides_record (nextRoundCount s - exchange_wins rng s Attack)
                                 (nextRoundCount s - exchange_wins rng s Defense) \<rparr>"

definition exchange_troops :: "(nat \<Rightarrow> int) \<Rightarrow> GameData \<Rightarrow> Sides \<Rightarrow> int" where
  "exchange_troops rng s =
     sides_record (troops s Attack - (nextRoundCount s - exchange_wins rng s Attack))
                  (troops s Defense - (nextRoundCount s - exchange_wins rng s Defense))"

text \<open>
  A fixed sequence of values put in the place of the random source: the \<open>k\<close>-th call
  returns the \<open>k\<close>-th value (and 1 once the sequence is used up).
\<close>

definition dice_sequence :: "int list \<Rightarrow> nat \<Rightarrow> int" where
  "dice_sequence xs k = (if k < length xs then xs ! k else 1)"

section \<open>Properties\<close>

subsection \<open>Facts about the loops\<close>

lemma push_rolls_length:
  "length (fst (push_rolls rng count i k ds)) = length ds + nat (count - int i)"
proof (induction rng count i k ds rule: push_rolls.induct)
  case (1 rng count i k ds)
  show ?case
  proof (cases "int i < count")
    case True
    with "1" show ?thesis
      by (subst push_rolls.simps) (simp add: nat_diff_distrib)
  next
    case False
    then show ?thesis
      by (subst push_rolls.simps) simp
  qed
qed

lemma compare_loop_done:
  "\<not> int i < roundCount \<Longrightarrow> compare_loop ds roundCount i rs wins = (rs, wins)"
  by (subst compare_loop.simps) simp

lemma compare_loop_step:
  "int i < roundCount \<Longrightarrow>
   compare_loop ds roundCount i rs wins =
     compare_loop ds roundCount (Suc i) (js_assign rs i (pair_winner ds i))
       (wins(pair_winner ds i := wins (pair_winner ds i) + 1))"
  by (subst compare_loop.simps) (simp only: Let_def if_True pair_winner_def)

lemma compare_loop_wins:
  "nat (roundCount - int i) = n \<Longrightarrow>
   snd (compare_loop ds roundCount i rs wins) Attack + snd (compare_loop ds roundCount i rs wins) Defense
     = wins Attack + wins Defense + int n
   \<and> wins Attack \<le> snd (compare_loop ds roundCount i rs wins) Attack
   \<and> wins Defense \<le> snd (compare_loop ds roundCount i rs wins) Defense"
proof (induction n arbitrary: i rs wins)
  case 0
  then have "\<not> int i < roundCount" by simp
  then show ?case by (simp add: compare_loop_done)
next
  case (Suc n)
  then have lt: "int i < roundCount" and m: "nat (roundCount - int (Suc i)) = n"
    by simp_all
  define r where "r = pair_winner ds i"
  define wins' where "wins' = wins(r := wins r + 1)"
  have upd: "wins' Attack + wins' Defense = wins Attack + wins Defense + 1"
    "wins Attack \<le> wins' Attack" "wins Defense \<le> wins' Defense"
    by (cases r; simp add: wins'_def)+
  have step: "compare_loop ds roundCount i rs wins
                = compare_loop ds roundCount (Suc i) (js_assign rs i r) wins'"
    by (simp only: compare_loop_step [OF lt] r_def wins'_def)
  show ?case
    using Suc.IH [OF m, of "js_assign rs i r" wins'] upd unfolding step by simp
qed

lemma compare_loop_length:
  "nat (roundCount - int i) = n \<Longrightarrow> nat roundCount \<le> length rs \<Longrightarrow>
   length (fst (compare_loop ds roundCount i rs wins)) = length rs"
proof (induction n arbitrary: i rs wins)
  case 0
  then have "\<not> int i < roundCount" by simp
  then show ?case by (simp add: compare_loop_done)
next
  case (Suc n)
  then have lt: "int i < roundCount" and m: "nat (roundCount - int (Suc i)) = n"
    by simp_all
  define r where "r = pair_winner ds i"
  define wins' where "wins' = wins(r := wins r + 1)"
  have len: "length (js_assign rs i r) = length rs"
    using lt Suc.prems(2) by (simp add: js_assign_def)
  have step: "compare_loop ds roundCount i rs wins
                = compare_loop ds roundCount (Suc i) (js_assign rs i r) wins'"
    by (simp only: compare_loop_step [OF lt] r_def wins'_def)
  show ?case
    using Suc.IH [OF m, of "js_assign rs i r" wins'] Suc.prems(2) len
    unfolding step by simp
qed

lemma sides_record_simps [simp]:
  "sides_record a d Attack = a" "sides_record a d Defense = d"
  by (simp_all add: sides_record_def)

lemma rollDices_eq:
  "rollDices rng s =
     (if exchange_troops rng s Defense = 0
      then s\<lparr> rolls := rolls s @ [exchange_roll rng s], troops := exchange_troops rng s,
              state := Finished, winner := Some Attack \<rparr>
      else if exchange_troops rng s Attack \<le> 1
      then s\<lparr> rolls := rolls s @ [exchange_roll rng s], troops := exchange_troops rng s,
              state := Finished, winner := Some Defense \<rparr>
      else s\<lparr> rolls := rolls s @ [exchange_roll rng s], troops := exchange_troops rng s \<rparr>)"
  by (simp add: rollDices_def Let_def exchange_troops_def exchange_roll_def exchange_wins_def
      exchange_compared_def exchange_dices_def)

lemma nextRoundCount_nonneg: "0 \<le> nextRoundCount s"
  by (simp add: nextRoundCount_def)

lemma exchange_wins_sum:
  "exchange_wins rng s Attack + exchange_wins rng s Defense = nextRoundCount s"
  using compare_loop_wins [of "nextRoundCount s" 0 "nat (nextRoundCount s)"
      "exchange_dices rng s" "replicate (nat (nextRoundCount s)) None" "sides_record 0 0"]
    nextRoundCount_nonneg [of s]
  by (simp add: exchange_wins_def exchange_compared_def)

lemma exchange_wins_nonneg: "0 \<le> exchange_wins rng s side"
  using compare_loop_wins [of "nextRoundCount s" 0 "nat (nextRoundCount s)"
      "exchange_dices rng s" "replicate (nat (nextRoundCount s)) None" "sides_record 0 0"]
  by (cases side) (simp_all add: exchange_wins_def exchange_compared_def)

lemma exchange_rounds_length:
  "length (fst (exchange_compared rng s)) = nat (nextRoundCount s)"
  using compare_loop_length [of "nextRoundCount s" 0 "nat (nextRoundCount s)"
      "replicate (nat (nextRoundCount s)) None" "exchange_dices rng s" "sides_record 0 0"]
  by (simp add: exchange_compared_def)

lemma exchange_troops_le: "exchange_troops rng s side \<le> troops s side"
  using exchange_wins_sum [of rng s] exchange_wins_nonneg [of rng s Attack]
    exchange_wins_nonneg [of rng s Defense]
  by (cases side) (simp_all add: exchange_troops_def)

lemma exchange_troops_nonneg:
  assumes "0 \<le> troops s Attack" "0 \<le> troops s Defense"
  shows "0 \<le> exchange_troops rng s side"
proof -
  have rc: "nextRoundCount s \<le> troops s Defense" "nextRoundCount s \<le> troops s Attack"
    using assms by (auto simp: nextRoundCount_def)
  show ?thesis
    using exchange_wins_sum [of rng s] exchange_wins_nonneg [of rng s Attack]
      exchange_wins_nonneg [of rng s Defense] rc
    by (cases side) (simp_all add: exchange_troops_def)
qed

lemma scenario_dices:
  assumes "trp Attack = 4" "trp Defense = 4"
    and "rng 0 = 6" "rng 1 = 5" "rng 2 = 4" "rng 3 = 6" "rng 4 = 3" "rng 5 = 1"
  shows "roll_all rng trp Attack = [6, 5, 4]" "roll_all rng trp Defense = [6, 3, 1]"
  using assms
  by (simp_all add: roll_all_def Sides_values_def roll_side_def nextDiceCount_def
      push_rolls.simps sort_desc_def Let_def eval_nat_numeral)

lemma scenario_compared:
  assumes "ds Attack = [6, 5, 4]" "ds Defense = [6, 3, 1]"
  shows "fst (compare_loop ds 3 0 (replicate (nat 3) None) (sides_record 0 0))
           = [Some Defense, Some Attack, Some Attack]"
    "snd (compare_loop ds 3 0 (replicate (nat 3) None) (sides_record 0 0)) Attack = 2"
    "snd (compare_loop ds 3 0 (replicate (nat 3) None) (sides_record 0 0)) Defense = 1"
  using assms
  by (simp_all add: compare_loop.simps js_index_def js_gt_def js_assign_def Let_def
      eval_nat_numeral)

subsection \<open>Facts about one exchange and about the operations\<close>

lemma rollDices_fields:
  "troops (rollDices rng s) = exchange_troops rng s"
  "rolls (rollDices rng s) = rolls s @ [exchange_roll rng s]"
  "initialTroops (rollDices rng s) = initialTroops s"
  "state (rollDices rng s) =
     (if exchange_troops rng s Defense = 0 then Finished
      else if exchange_troops rng s Attack \<le> 1 then Finished else state s)"
  "winner (rollDices rng s) =
     (if exchange_troops rng s Defense = 0 then Some Attack
      else if exchange_troops rng s Attack \<le> 1 then Some Defense else winner s)"
  by (simp_all add: rollDices_eq)

lemma exchange_start:
  "exchange_troops rng (s\<lparr> state := a, initialTroops := b, rolls := c, winner := d \<rparr>)
     = exchange_troops rng s"
  "exchange_roll rng (s\<lparr> state := a, initialTroops := b, rolls := c, winner := d \<rparr>)
     = exchange_roll rng s"
  by (simp_all add: exchange_troops_def exchange_roll_def exchange_wins_def
      exchange_compared_def exchange_dices_def nextRoundCount_def)

lemma play_Waiting:
  "state s = Waiting \<Longrightarrow>
   play rng s = rollDices rng
     (s\<lparr> state := Rolling, initialTroops := troops s, rolls := [], winner := None \<rparr>)"
  by (simp add: play_def)

lemma play_Rolling: "state s = Rolling \<Longrightarrow> play rng s = rollDices rng s"
  by (simp add: play_def)

lemma play_Finished: "state s = Finished \<Longrightarrow> play rng s = initialState"
  by (simp add: play_def reset_def)

lemma play_fields:
  assumes "state s \<noteq> Finished"
  shows "troops (play rng s) = exchange_troops rng s"
    and "state (play rng s) =
       (if exchange_troops rng s Defense = 0 then Finished
        else if exchange_troops rng s Attack \<le> 1 then Finished else Rolling)"
    and "winner (play rng s) =
       (if exchange_troops rng s Defense = 0 then Some Attack
        else if exchange_troops rng s Attack \<le> 1 then Some Defense
        else if state s = Waiting then None else winner s)"
    and "rolls (play rng s) =
       (if state s = Waiting then [] else rolls s) @ [exchange_roll rng s]"
proof -
  consider "state s = Waiting" | "state s = Rolling"
    using assms by (cases "state s") simp_all
  then have "troops (play rng s) = exchange_troops rng s
    \<and> state (play rng s) =
       (if exchange_troops rng s Defense = 0 then Finished
        else if exchange_troops rng s Attack \<le> 1 then Finished else Rolling)
    \<and> winner (play rng s) =
       (if exchange_troops rng s Defense = 0 then Some Attack
        else if exchange_troops rng s Attack \<le> 1 then Some Defense
        else if state s = Waiting then None else winner s)
    \<and> rolls (play rng s) =
       (if state s = Waiting then [] else rolls s) @ [exchange_roll rng s]"
  proof cases
    case 1
    then show ?thesis
      by (simp add: play_Waiting rollDices_fields exchange_start)
  next
    case 2
    then show ?thesis
      by (simp add: play_Rolling rollDices_fields)
  qed
  then show "troops (play rng s) = exchange_troops rng s"
    and "state (play rng s) =
       (if exchange_troops rng s Defense = 0 then Finished
        else if exchange_troops rng s Attack \<le> 1 then Finished else Rolling)"
    and "winner (play rng s) =
       (if exchange_troops rng s Defense = 0 then Some Attack
        else if exchange_troops rng s Attack \<le> 1 then Some Defense
        else if state s = Waiting then None else winner s)"
    and "rolls (play rng s) =
       (if state s = Waiting then [] else rolls s) @ [exchange_roll rng s]"
    by simp_all
qed

lemma setTroops_nonneg:
  "0 \<le> troops s Attack \<Longrightarrow> 0 \<le> troops s Defense \<Longrightarrow> 0 \<le> troops (setTroops side val s) other"
  by (cases other; cases side; simp add: setTroops_def)

lemma initialState_fields [simp]:
  "state initialState = Waiting" "troops initialState = sides_record 4 4"
  "rolls initialState = []" "winner initialState = None"
  "initialTroops initialState = sides_record 0 0"
  by (simp_all add: initialState_def)

lemma apply_operation_nonneg:
  assumes "0 \<le> troops s Attack" "0 \<le> troops s Defense"
  shows "0 \<le> troops (apply_operation op s) side"
proof (cases op)
  case (SetTroops sd val)
  then show ?thesis using assms by (simp add: setTroops_nonneg)
next
  case (Play rng)
  show ?thesis
  proof (cases "state s = Finished")
    case True
    then show ?thesis using Play by (cases side) (simp_all add: play_Finished)
  next
    case False
    then show ?thesis
      using Play assms by (simp add: play_fields exchange_troops_nonneg)
  qed
next
  case Reset
  then show ?thesis by (cases side) (simp_all add: reset_def)
qed

lemma run_nonneg:
  "0 \<le> troops s Attack \<Longrightarrow> 0 \<le> troops s Defense \<Longrightarrow> 0 \<le> troops (run ops s) side"
proof (induction ops arbitrary: s)
  case Nil
  then show ?case by (cases side) (simp_all add: run_def)
next
  case (Cons op ops)
  have "0 \<le> troops (run ops (apply_operation op s)) side"
    by (rule Cons.IH) (simp_all add: apply_operation_nonneg Cons.prems)
  then show ?case by (simp add: run_def)
qed

lemma zero_rounds_compared:
  "nextRoundCount s = 0 \<Longrightarrow> exchange_compared rng s = ([], sides_record 0 0)"
  by (simp add: exchange_compared_def compare_loop_done)

lemma sort_desc_length: "length (sort_desc xs) = length xs"
  by (simp add: sort_desc_def)

lemma roll_all_length:
  "int (length (roll_all rng trp side)) = nextDiceCount side (trp side)"
proof -
  have "0 \<le> nextDiceCount side (trp side)"
    by (simp add: nextDiceCount_def)
  then show ?thesis
    by (cases side)
      (simp_all add: roll_all_def Sides_values_def roll_side_def Let_def sort_desc_length
        push_rolls_length)
qed

lemma round_count_le_dice_count: "nextRoundCount s \<le> nextDiceCount side (troops s side)"
  by (cases side) (auto simp: nextRoundCount_def nextDiceCount_def MAX_DICE_ROUNDS_def)

lemma configure_Cons:
  "configure ((sd, val) # cfg) s = configure cfg (setTroops sd val s)"
  by (simp add: configure_def)

lemma configure_state: "state (configure cfg s) = state s"
proof (induction cfg arbitrary: s)
  case Nil
  show ?case by (simp add: configure_def)
next
  case (Cons c cfg)
  then show ?case by (cases c) (simp add: configure_Cons setTroops_def)
qed

lemma configure_nonneg:
  "0 \<le> troops s Attack \<Longrightarrow> 0 \<le> troops s Defense \<Longrightarrow> 0 \<le> troops (configure cfg s) side"
proof (induction cfg arbitrary: s)
  case Nil
  then show ?case by (cases side) (simp_all add: configure_def)
next
  case (Cons c cfg)
  obtain sd val where c: "c = (sd, val)" by (cases c)
  have "0 \<le> troops (configure cfg (setTroops sd val s)) side"
    by (rule Cons.IH) (simp_all add: setTroops_nonneg Cons.prems)
  then show ?case by (simp add: c configure_Cons)
qed

lemma history_invariant_step:
  assumes "(rolls s = []) = (state s = Waiting)"
  shows "(rolls (apply_operation op s) = []) = (state (apply_operation op s) = Waiting)"
proof (cases op)
  case (SetTroops sd val)
  then show ?thesis using assms by (simp add: setTroops_def)
next
  case (Play rng)
  show ?thesis
  proof (cases "state s = Finished")
    case True
    then show ?thesis using Play by (simp add: play_Finished)
  next
    case False
    then show ?thesis using Play by (simp add: play_fields)
  qed
next
  case Reset
  then show ?thesis by (simp add: reset_def)
qed

lemma history_invariant_run:
  "(rolls s = []) = (state s = Waiting) \<Longrightarrow>
   (rolls (run ops s) = []) = (state (run ops s) = Waiting)"
proof (induction ops arbitrary: s)
  case Nil
  then show ?case by (simp add: run_def)
next
  case (Cons op ops)
  have "(rolls (run ops (apply_operation op s)) = [])
      = (state (run ops (apply_operation op s)) = Waiting)"
    by (rule Cons.IH) (rule history_invariant_step [OF Cons.prems])
  then show ?case by (simp add: run_def)
qed

lemma zero_rounds_troops:
  "nextRoundCount s = 0 \<Longrightarrow> exchange_troops rng s side = troops s side"
  by (cases side)
    (simp_all add: exchange_troops_def exchange_wins_def zero_rounds_compared)

lemma one_attacker_round_count:
  "nextRoundCount (setTroops Attack (Number 1) initialState) = 0"
  by (simp add: nextRoundCount_def setTroops_def MAX_DICE_ROUNDS_def)

lemma one_attacker_fields:
  "state (setTroops Attack (Number 1) initialState) = Waiting"
  "troops (setTroops Attack (Number 1) initialState) Attack = 1"
  "troops (setTroops Attack (Number 1) initialState) Defense = 4"
  by (simp_all add: setTroops_def)

lemma compare_loop_rounds:
  "nat (roundCount - int i) = n \<Longrightarrow> length rs = nat roundCount \<Longrightarrow>
   fst (compare_loop ds roundCount i rs wins)
     = take i rs @ map (\<lambda>j. Some (pair_winner ds j)) [i..<nat roundCount]"
proof (induction n arbitrary: i rs wins)
  case 0
  then have "\<not> int i < roundCount" and "nat roundCount \<le> i" by simp_all
  then show ?case using "0.prems"(2) by (simp add: compare_loop_done)
next
  case (Suc n)
  then have lt: "int i < roundCount" and m: "nat (roundCount - int (Suc i)) = n"
    by simp_all
  have ilt: "i < nat roundCount" using lt by simp
  define r where "r = pair_winner ds i"
  define wins' where "wins' = wins(r := wins r + 1)"
  have asg: "js_assign rs i r = rs[i := Some r]"
    using ilt Suc.prems(2) by (simp add: js_assign_def)
  have step: "compare_loop ds roundCount i rs wins
                = compare_loop ds roundCount (Suc i) (rs[i := Some r]) wins'"
    by (simp only: compare_loop_step [OF lt] r_def wins'_def asg [unfolded r_def])
  have len: "length (rs[i := Some r]) = nat roundCount"
    using Suc.prems(2) by simp
  have tk: "take (Suc i) (rs[i := Some r]) = take i rs @ [Some r]"
    using ilt Suc.prems(2) by (simp add: take_Suc_conv_app_nth)
  have upt: "[i..<nat roundCount] = i # [Suc i..<nat roundCount]"
    using ilt by (simp add: upt_conv_Cons)
  show ?case
    unfolding step Suc.IH [OF m len, of wins'] tk upt by (simp add: r_def)
qed

lemma compare_loop_wins_count:
  "nat (roundCount - int i) = n \<Longrightarrow>
   snd (compare_loop ds roundCount i rs wins) side
     = wins side + int (length (filter (\<lambda>j. pair_winner ds j = side) [i..<nat roundCount]))"
proof (induction n arbitrary: i rs wins)
  case 0
  then have "\<not> int i < roundCount" and "nat roundCount \<le> i" by simp_all
  then show ?case by (simp add: compare_loop_done)
next
  case (Suc n)
  then have lt: "int i < roundCount" and m: "nat (roundCount - int (Suc i)) = n"
    by simp_all
  have ilt: "i < nat roundCount" using lt by simp
  define r where "r = pair_winner ds i"
  define wins' where "wins' = wins(r := wins r + 1)"
  have upd: "wins' side = wins side + (if r = side then 1 else 0)"
    by (simp add: wins'_def)
  have step: "compare_loop ds roundCount i rs wins
                = compare_loop ds roundCount (Suc i) (js_assign rs i r) wins'"
    by (simp only: compare_loop_step [OF lt] r_def wins'_def)
  have upt: "[i..<nat roundCount] = i # [Suc i..<nat roundCount]"
    using ilt by (simp add: upt_conv_Cons)
  show ?case
    unfolding step Suc.IH [OF m, of "js_assign rs i r" wins'] upd upt
    by (simp add: r_def)
qed

lemma exchange_rounds_eq:
  "fst (exchange_compared rng s)
     = map (\<lambda>j. Some (pair_winner (exchange_dices rng s) j)) [0..<nat (nextRoundCount s)]"
  using compare_loop_rounds [of "nextRoundCount s" 0 "nat (nextRoundCount s)"
      "replicate (nat (nextRoundCount s)) None" "exchange_dices rng s" "sides_record 0 0"]
  by (simp add: exchange_compared_def)

lemma exchange_wins_count:
  "exchange_wins rng s side
     = int (length (filter (\<lambda>j. pair_winner (exchange_dices rng s) j = side)
         [0..<nat (nextRoundCount s)]))"
  using compare_loop_wins_count [of "nextRoundCount s" 0 "nat (nextRoundCount s)"
      "exchange_dices rng s" "replicate (nat (nextRoundCount s)) None" "sides_record 0 0" side]
  by (cases side) (simp_all add: exchange_wins_def exchange_compared_def)

lemma one_attacker_play:
  "state (play rng (setTroops Attack (Number 1) initialState)) = Finished"
  "winner (play rng (setTroops Attack (Number 1) initialState)) = Some Defense"
  "troops (play rng (setTroops Attack (Number 1) initialState)) Attack = 1"
  "troops (play rng (setTroops Attack (Number 1) initialState)) Defense = 4"
  by (simp_all add: one_attacker_fields play_fields zero_rounds_troops
      one_attacker_round_count)

lemma setTroops_fields:
  "state (setTroops side val s) = state s"
  "winner (setTroops side val s) = winner s"
  "rolls (setTroops side val s) = rolls s"
  "troops (setTroops side val s) = (troops s)
     (side := max 0 (case val of Updater f \<Rightarrow> f (troops s side) | Number v \<Rightarrow> v))"
  by (simp_all add: setTroops_def)

section \<open>The statements of the specification\<close>

text \<open>
  C1. The scenario of the specification. In phase Rolling with four troops on each side,
  when the dice calls return 6, 5, 4 for the attacker and then 6, 3, 1 for the defender,
  the exchange (which \<open>play\<close> resolves by calling \<open>rollDices\<close>) appends one
  roll whose pairs go to the defender (the tie 6 against 6), the attacker and the attacker;
  the attacker wins the roll, loses one troop and the defender two; three and two troops
  are left and the phase is still Rolling.
\<close>

theorem scenario_first_exchange:
  assumes "state s = Rolling" and "troops s Attack = 4" and "troops s Defense = 4"
    and "rng 0 = 6" and "rng 1 = 5" and "rng 2 = 4"
    and "rng 3 = 6" and "rng 4 = 3" and "rng 5 = 1"
  shows "play rng s = rollDices rng s
       \<and> rolls (rollDices rng s) = rolls s @ [last (rolls (rollDices rng s))]
       \<and> dices (last (rolls (rollDices rng s))) Attack = [6, 5, 4]
       \<and> dices (last (rolls (rollDices rng s))) Defense = [6, 3, 1]
       \<and> rounds (last (rolls (rollDices rng s))) = [Some Defense, Some Attack, Some Attack]
       \<and> rollWinner (last (rolls (rollDices rng s))) = Attack
       \<and> troopsLost (last (rolls (rollDices rng s))) Attack = 1
       \<and> troopsLost (last (rolls (rollDices rng s))) Defense = 2
       \<and> troops (rollDices rng s) Attack = 3
       \<and> troops (rollDices rng s) Defense = 2
       \<and> state (rollDices rng s) = Rolling"
proof -
  have rc: "nextRoundCount s = 3"
    using assms(2,3) by (simp add: nextRoundCount_def MAX_DICE_ROUNDS_def)
  have ds: "exchange_dices rng s Attack = [6, 5, 4]" "exchange_dices rng s Defense = [6, 3, 1]"
    unfolding exchange_dices_def by (rule scenario_dices [OF assms(2-9)])+
  have cmp: "fst (exchange_compared rng s) = [Some Defense, Some Attack, Some Attack]"
    "exchange_wins rng s Attack = 2" "exchange_wins rng s Defense = 1"
    unfolding exchange_wins_def exchange_compared_def rc
    by (rule scenario_compared [OF ds])+
  have trp: "exchange_troops rng s Attack = 3" "exchange_troops rng s Defense = 2"
    by (simp_all add: exchange_troops_def rc cmp assms(2,3))
  have roll: "rounds (exchange_roll rng s) = [Some Defense, Some Attack, Some Attack]"
    "rollWinner (exchange_roll rng s) = Attack"
    "troopsLost (exchange_roll rng s) Attack = 1"
    "troopsLost (exchange_roll rng s) Defense = 2"
    "dices (exchange_roll rng s) Attack = [6, 5, 4]"
    "dices (exchange_roll rng s) Defense = [6, 3, 1]"
    by (simp_all add: exchange_roll_def rc cmp ds)
  show ?thesis
    using assms(1) by (simp add: play_Rolling rollDices_fields trp roll)
qed

theorem scenario_first_exchange_witness:
  "rounds (last (rolls (rollDices (dice_sequence [6, 5, 4, 6, 3, 1])
      (initialState\<lparr> state := Rolling \<rparr>)))) = [Some Defense, Some Attack, Some Attack]
   \<and> troops (rollDices (dice_sequence [6, 5, 4, 6, 3, 1]) (initialState\<lparr> state := Rolling \<rparr>)) Attack = 3
   \<and> troops (rollDices (dice_sequence [6, 5, 4, 6, 3, 1]) (initialState\<lparr> state := Rolling \<rparr>)) Defense = 2
   \<and> state (rollDices (dice_sequence [6, 5, 4, 6, 3, 1]) (initialState\<lparr> state := Rolling \<rparr>)) = Rolling"
  using scenario_first_exchange [of "initialState\<lparr> state := Rolling \<rparr>"
      "dice_sequence [6, 5, 4, 6, 3, 1]"]
  by (simp add: dice_sequence_def)

text \<open>
  C2. From a state whose troop counts are not negative, each of \<open>setTroops\<close>,
  \<open>play\<close> and \<open>reset\<close>, and so every sequence of them, gives troop counts that
  are not negative; and an exchange never raises a troop count: \<open>rollDices\<close> never
  does, nor does \<open>play\<close> in the phases in which it resolves an exchange.
\<close>

theorem troops_never_negative_nor_increasing:
  assumes "0 \<le> troops s Attack" and "0 \<le> troops s Defense"
  shows "0 \<le> troops (setTroops sd val s) side
       \<and> 0 \<le> troops (play rng s) side
       \<and> 0 \<le> troops (reset s) side
       \<and> 0 \<le> troops (run ops s) side
       \<and> troops (rollDices rng s) side \<le> troops s side
       \<and> (state s \<noteq> Finished \<longrightarrow> troops (play rng s) side \<le> troops s side)"
proof -
  have "0 \<le> troops (apply_operation (SetTroops sd val) s) side"
    "0 \<le> troops (apply_operation (Play rng) s) side"
    "0 \<le> troops (apply_operation Reset s) side"
    using assms by (rule apply_operation_nonneg)+
  moreover have "0 \<le> troops (run ops s) side"
    using assms by (rule run_nonneg)
  moreover have "troops (rollDices rng s) side \<le> troops s side"
    by (simp add: rollDices_fields exchange_troops_le)
  moreover have "state s \<noteq> Finished \<longrightarrow> troops (play rng s) side \<le> troops s side"
    by (simp add: play_fields exchange_troops_le)
  ultimately show ?thesis by simp
qed

theorem troops_never_negative_nor_increasing_witness:
  "0 \<le> troops (setTroops Defense (Number (- 2)) initialState) Defense
       \<and> 0 \<le> troops (play (dice_sequence [1, 1, 1, 6, 6, 6]) initialState) Attack
       \<and> troops (play (dice_sequence [1, 1, 1, 6, 6, 6]) initialState) Attack \<le> 4"
  using troops_never_negative_nor_increasing [of initialState Defense "Number (- 2)" Defense
      "dice_sequence [1, 1, 1, 6, 6, 6]" "[]"]
    troops_never_negative_nor_increasing [of initialState Attack "Number 0" Attack
      "dice_sequence [1, 1, 1, 6, 6, 6]" "[]"]
  by simp

text \<open>
  C3, as amended. The end of an exchange resolved by \<open>play\<close>, on troop counts that
  are not negative. The checks are made in the order of the code on the updated troops: no
  defender left finishes the game with the attacker as winner; otherwise at most one
  attacker left finishes it with the defender as winner; otherwise the phase is Rolling.
  So every state that an exchange resolution leaves Finished has no defender and the
  attacker as winner, or some defender, at most one attacker and the defender as winner.
  This is a statement about the state the exchange leaves, not about every Finished
  state: \<open>setTroops\<close> does not look at the phase and can change the troops afterwards.
\<close>

theorem finish_checks_in_order:
  assumes "state s \<noteq> Finished" and "0 \<le> troops s Attack" and "0 \<le> troops s Defense"
  shows "(troops (play rng s) Defense = 0 \<longrightarrow>
            state (play rng s) = Finished \<and> winner (play rng s) = Some Attack)
       \<and> (troops (play rng s) Defense \<noteq> 0 \<and> troops (play rng s) Attack \<le> 1 \<longrightarrow>
            state (play rng s) = Finished \<and> winner (play rng s) = Some Defense)
       \<and> (troops (play rng s) Defense \<noteq> 0 \<and> 1 < troops (play rng s) Attack \<longrightarrow>
            state (play rng s) = Rolling)
       \<and> (state (play rng s) = Finished \<longrightarrow>
            troops (play rng s) Defense = 0 \<and> winner (play rng s) = Some Attack
          \<or> 0 < troops (play rng s) Defense \<and> troops (play rng s) Attack \<le> 1
              \<and> winner (play rng s) = Some Defense)"
proof -
  have "0 \<le> exchange_troops rng s Defense"
    using assms(2,3) by (rule exchange_troops_nonneg)
  then show ?thesis
    using assms(1) by (auto simp: play_fields)
qed

theorem finish_checks_in_order_witness:
  "state (play (dice_sequence []) (setTroops Attack (Number 1) initialState)) = Finished
   \<and> winner (play (dice_sequence []) (setTroops Attack (Number 1) initialState)) = Some Defense
   \<and> troops (play (dice_sequence []) (setTroops Attack (Number 1) initialState)) Defense = 4
   \<and> troops (play (dice_sequence []) (setTroops Attack (Number 1) initialState)) Attack = 1"
  using finish_checks_in_order [of "setTroops Attack (Number 1) initialState" "dice_sequence []"]
  by (simp add: one_attacker_fields play_fields zero_rounds_troops one_attacker_round_count)

text \<open>
  C3 as stated fails for the Finished states that can be reached: with one attacker against
  four defenders \<open>play\<close> resolves an exchange of no pair and finishes the game with
  the defender as winner; \<open>setTroops\<close> then sets the attacker's troops to 5, and the
  state is still Finished, with four defenders and five attackers.
\<close>

theorem every_Finished_state_counterexample:
  "state (run [SetTroops Attack (Number 1), Play (dice_sequence []),
               SetTroops Attack (Number 5)] initialState) = Finished
   \<and> winner (run [SetTroops Attack (Number 1), Play (dice_sequence []),
               SetTroops Attack (Number 5)] initialState) = Some Defense
   \<and> troops (run [SetTroops Attack (Number 1), Play (dice_sequence []),
               SetTroops Attack (Number 5)] initialState) Attack = 5
   \<and> troops (run [SetTroops Attack (Number 1), Play (dice_sequence []),
               SetTroops Attack (Number 5)] initialState) Defense = 4
   \<and> \<not> (troops (run [SetTroops Attack (Number 1), Play (dice_sequence []),
               SetTroops Attack (Number 5)] initialState) Defense = 0
        \<or> troops (run [SetTroops Attack (Number 1), Play (dice_sequence []),
               SetTroops Attack (Number 5)] initialState) Attack \<le> 1)"
proof -
  have r: "run [SetTroops Attack (Number 1), Play (dice_sequence []),
               SetTroops Attack (Number 5)] initialState
        = setTroops Attack (Number 5)
            (play (dice_sequence []) (setTroops Attack (Number 1) initialState))"
    by (simp add: run_def)
  show ?thesis
    unfolding r by (simp add: setTroops_fields one_attacker_play)
qed

text \<open>
  C4. In phase Finished, \<open>play\<close> does what \<open>reset\<close> does and nothing else:
  the result is the initial state, in phase Waiting with four troops on each side, no roll
  and no winner.
\<close>

theorem play_when_Finished_is_reset:
  assumes "state s = Finished"
  shows "play rng s = reset s
       \<and> play rng s = initialState
       \<and> state (play rng s) = Waiting
       \<and> troops (play rng s) Attack = 4
       \<and> troops (play rng s) Defense = 4
       \<and> rolls (play rng s) = []
       \<and> winner (play rng s) = None"
  using assms by (simp add: play_Finished reset_def)

theorem play_when_Finished_is_reset_witness:
  "state (play (dice_sequence []) (setTroops Attack (Number 1) initialState)) = Finished
   \<and> play (dice_sequence [6, 6, 6])
         (play (dice_sequence []) (setTroops Attack (Number 1) initialState)) = initialState"
  using play_when_Finished_is_reset
    [of "play (dice_sequence []) (setTroops Attack (Number 1) initialState)"
      "dice_sequence [6, 6, 6]"]
  by (simp add: one_attacker_fields play_fields zero_rounds_troops one_attacker_round_count
      reset_def)

text \<open>
  C5. The number of pairs compared in an exchange is
  \<open>max 0 (min 3 (min troops[Defense] (troops[Attack] - 1)))\<close>. This is what
  \<open>nextRoundCount\<close> returns, and the comparison loop of \<open>rollDices\<close> compares
  exactly that many pairs: the array \<open>rounds\<close> of the appended roll holds, for each
  index below that number and for no other, the winner of the pair of dice at that index
  (so it has that length and no entry is left undefined); the wins of a side are the
  number of these pairs it won, and the wins of both sides add up to that number.
  Four troops against four give 3; one attacker against five defenders gives 0.
\<close>

theorem round_count_formula:
  "nextRoundCount s = max 0 (min 3 (min (troops s Defense) (troops s Attack - 1)))
   \<and> rounds (last (rolls (rollDices rng s)))
       = map (\<lambda>i. Some (pair_winner (roll_all rng (troops s)) i)) [0..<nat (nextRoundCount s)]
   \<and> length (rounds (last (rolls (rollDices rng s)))) = nat (nextRoundCount s)
   \<and> None \<notin> set (rounds (last (rolls (rollDices rng s))))
   \<and> exchange_wins rng s Attack + exchange_wins rng s Defense = nextRoundCount s
   \<and> exchange_wins rng s side
       = int (length (filter (\<lambda>i. pair_winner (roll_all rng (troops s)) i = side)
           [0..<nat (nextRoundCount s)]))
   \<and> nextRoundCount (s\<lparr> troops := sides_record 4 4 \<rparr>) = 3
   \<and> nextRoundCount (s\<lparr> troops := sides_record 1 5 \<rparr>) = 0"
proof -
  have f: "nextRoundCount s = max 0 (min 3 (min (troops s Defense) (troops s Attack - 1)))"
    by (simp add: nextRoundCount_def MAX_DICE_ROUNDS_def)
  have r: "rounds (last (rolls (rollDices rng s)))
       = map (\<lambda>i. Some (pair_winner (roll_all rng (troops s)) i)) [0..<nat (nextRoundCount s)]"
    by (simp add: rollDices_fields exchange_roll_def exchange_rounds_eq exchange_dices_def)
  have l: "length (rounds (last (rolls (rollDices rng s)))) = nat (nextRoundCount s)"
    unfolding r by simp
  have n: "None \<notin> set (rounds (last (rolls (rollDices rng s))))"
    unfolding r by auto
  have w: "exchange_wins rng s Attack + exchange_wins rng s Defense = nextRoundCount s"
    by (rule exchange_wins_sum)
  have c: "exchange_wins rng s side
       = int (length (filter (\<lambda>i. pair_winner (roll_all rng (troops s)) i = side)
           [0..<nat (nextRoundCount s)]))"
    using exchange_wins_count [of rng s side] by (simp add: exchange_dices_def)
  have e: "nextRoundCount (s\<lparr> troops := sides_record 4 4 \<rparr>) = 3"
    "nextRoundCount (s\<lparr> troops := sides_record 1 5 \<rparr>) = 0"
    by (simp_all add: nextRoundCount_def MAX_DICE_ROUNDS_def)
  show ?thesis
    using f r l n w c e by (intro conjI)
qed

theorem round_count_formula_witness:
  "length (rounds (last (rolls (rollDices (dice_sequence [6, 5, 4, 6, 3, 1]) initialState)))) = 3
   \<and> exchange_wins (dice_sequence [6, 5, 4, 6, 3, 1]) initialState Attack
       + exchange_wins (dice_sequence [6, 5, 4, 6, 3, 1]) initialState Defense = 3"
proof -
  have rc: "nextRoundCount initialState = 3"
    by (simp add: nextRoundCount_def MAX_DICE_ROUNDS_def)
  note t = round_count_formula [of initialState "dice_sequence [6, 5, 4, 6, 3, 1]" Attack]
  have "length (rounds (last (rolls (rollDices (dice_sequence [6, 5, 4, 6, 3, 1])
          initialState)))) = nat (nextRoundCount initialState)"
    and "exchange_wins (dice_sequence [6, 5, 4, 6, 3, 1]) initialState Attack
       + exchange_wins (dice_sequence [6, 5, 4, 6, 3, 1]) initialState Defense
       = nextRoundCount initialState"
    using t by blast+
  then show ?thesis by (simp add: rc)
qed

text \<open>
  C6. \<open>setTroops\<close> sets the count of the given side to the maximum of 0 and the
  value computed from its argument, a number or a function of the current count; a negative
  value gives 0. It changes nothing else, and it always returns a state: there is no
  error.
\<close>

theorem setTroops_clamps:
  "troops (setTroops side (Number v) s) side = max 0 v
   \<and> troops (setTroops side (Updater f) s) side = max 0 (f (troops s side))
   \<and> (v < 0 \<longrightarrow> troops (setTroops side (Number v) s) side = 0)
   \<and> (f (troops s side) < 0 \<longrightarrow> troops (setTroops side (Updater f) s) side = 0)
   \<and> (other \<noteq> side \<longrightarrow> troops (setTroops side val s) other = troops s other)
   \<and> state (setTroops side val s) = state s
   \<and> initialTroops (setTroops side val s) = initialTroops s
   \<and> rolls (setTroops side val s) = rolls s
   \<and> winner (setTroops side val s) = winner s"
  by (simp add: setTroops_def)

theorem setTroops_clamps_witness:
  "troops (setTroops Attack (Number (- 3)) initialState) Attack = 0
   \<and> troops (setTroops Attack (Updater (\<lambda>n. n - 10)) initialState) Attack = 0
   \<and> troops (setTroops Attack (Number (- 3)) initialState) Defense = 4"
  using setTroops_clamps [of Attack "- 3" initialState "\<lambda>n. n - 10" Defense "Number (- 3)"]
  by simp

text \<open>
  C7, as amended. Every state reached from the initial state by calls of
  \<open>setTroops\<close> is in phase Waiting and has at least 0 troops on each side (not at
  least 1: the store clamps at 0); with no call the counts are the default 4 and 4.
\<close>

theorem configured_troops_nonneg:
  "state (configure cfg initialState) = Waiting
   \<and> 0 \<le> troops (configure cfg initialState) side
   \<and> troops (configure [] initialState) Attack = 4
   \<and> troops (configure [] initialState) Defense = 4"
proof -
  have "0 \<le> troops (configure cfg initialState) side"
    by (rule configure_nonneg) simp_all
  then show ?thesis
    by (simp add: configure_state) (simp add: configure_def)
qed

text \<open>
  C7 as stated fails: setting the attacker's troops to 0 in the initial state gives a
  state in phase Waiting with fewer than one attacking troop.
\<close>

theorem configured_minimum_one_counterexample:
  "state (configure [(Attack, Number 0)] initialState) = Waiting
   \<and> \<not> 1 \<le> troops (configure [(Attack, Number 0)] initialState) Attack"
  by (simp add: configure_def setTroops_def)

text \<open>
  C8. In every state reached from the initial state by a sequence of \<open>setTroops\<close>,
  \<open>play\<close> and \<open>reset\<close>, the list of rolls is empty exactly when the phase is
  Waiting.
\<close>

theorem history_empty_iff_Waiting:
  "(rolls (run ops initialState) = []) = (state (run ops initialState) = Waiting)"
  by (rule history_invariant_run) simp

theorem history_empty_iff_Waiting_witness:
  "state (run [SetTroops Attack (Number 1), Play (dice_sequence [])] initialState) = Finished
   \<and> rolls (run [SetTroops Attack (Number 1), Play (dice_sequence [])] initialState) \<noteq> []"
  using history_empty_iff_Waiting [of "[SetTroops Attack (Number 1), Play (dice_sequence [])]"]
  by (simp add: run_def one_attacker_fields play_fields zero_rounds_troops
      one_attacker_round_count)

text \<open>
  C9. An exchange with no pair to compare: both sides have 0 wins, the roll that is
  appended to the list all the same has an empty array \<open>rounds\<close>, the defender as
  its winner (0 > 0 is false) and no troop lost on either side, and the troops stay as
  they were.
\<close>

theorem zero_round_exchange:
  assumes "nextRoundCount s = 0"
  shows "exchange_wins rng s Attack = 0
       \<and> exchange_wins rng s Defense = 0
       \<and> rolls (rollDices rng s) = rolls s @ [last (rolls (rollDices rng s))]
       \<and> rounds (last (rolls (rollDices rng s))) = []
       \<and> rollWinner (last (rolls (rollDices rng s))) = Defense
       \<and> troopsLost (last (rolls (rollDices rng s))) Attack = 0
       \<and> troopsLost (last (rolls (rollDices rng s))) Defense = 0
       \<and> troops (rollDices rng s) side = troops s side"
  using assms
  by (cases side)
    (simp_all add: rollDices_fields exchange_roll_def exchange_wins_def exchange_troops_def
      zero_rounds_compared)

theorem zero_round_exchange_witness:
  "rounds (last (rolls (rollDices (dice_sequence [])
      (setTroops Attack (Number 1) initialState)))) = []
   \<and> rollWinner (last (rolls (rollDices (dice_sequence [])
      (setTroops Attack (Number 1) initialState)))) = Defense
   \<and> rolls (rollDices (dice_sequence []) (setTroops Attack (Number 1) initialState))
       = [last (rolls (rollDices (dice_sequence [])
            (setTroops Attack (Number 1) initialState)))]"
  using zero_round_exchange [of "setTroops Attack (Number 1) initialState" "dice_sequence []"]
  by (simp add: one_attacker_round_count) (simp add: setTroops_def)

text \<open>
  C10. The number of dice of each side is at least the number of pairs compared (for
  all troop counts, negative ones included), and it is the length of that side's sorted
  array of dice: every index below the number of pairs is inside both arrays, so the
  comparison loop reads a die there and never \<open>undefined\<close>.
\<close>

theorem dice_indices_in_bounds:
  "nextRoundCount s \<le> nextDiceCount side (troops s side)
   \<and> int (length (roll_all rng (troops s) side)) = nextDiceCount side (troops s side)
   \<and> (int i < nextRoundCount s \<longrightarrow>
        i < length (roll_all rng (troops s) side)
        \<and> js_index (roll_all rng (troops s) side) i = Some (roll_all rng (troops s) side ! i))"
proof -
  have a: "nextRoundCount s \<le> nextDiceCount side (troops s side)"
    by (rule round_count_le_dice_count)
  have b: "int (length (roll_all rng (troops s) side)) = nextDiceCount side (troops s side)"
    by (rule roll_all_length)
  have "int i < nextRoundCount s \<longrightarrow> i < length (roll_all rng (troops s) side)"
    using a b by linarith
  then show ?thesis
    using a b by (simp add: js_index_def)
qed

theorem dice_indices_in_bounds_witness:
  "(3::int) \<le> nextDiceCount Attack 4
   \<and> js_index (roll_all (dice_sequence [6, 5, 4, 6, 3, 1]) (troops initialState) Attack) 2
       = Some (roll_all (dice_sequence [6, 5, 4, 6, 3, 1]) (troops initialState) Attack ! 2)"
  using dice_indices_in_bounds [of initialState Attack "dice_sequence [6, 5, 4, 6, 3, 1]" 2]
  by (simp add: nextRoundCount_def MAX_DICE_ROUNDS_def)

end
